theory Spec2Isabelle
  imports Complex_Main
begin

section \<open>The sliding-window limiter: \<open>check_spam\<close>\<close>

text \<open>
  \<^verbatim>\<open>
  def check_spam(user_id, message_times_dict, time_window, message_limit):
      now = time.time()
      user_times = message_times_dict[user_id]
      user_times[:] = [t for t in user_times if now - t < time_window]
      user_times.append(now)
      return len(user_times) > message_limit
  \<close>
  The dictionary is a \<open>defaultdict(list)\<close>: reading a key that was never seen yields the
  empty list and stores it. It is modelled as a map from user ids to timestamp lists, a
  missing key reading as \<open>[]\<close>. The clock \<open>time.time()\<close> is the only input from outside;
  its reading \<open>now\<close> is a parameter. Timestamps are seconds, modelled as reals (the rounding
  of floating-point subtraction is abstracted). The function returns \<open>True\<close> when the caller
  is spamming, that is when the call is REJECTED; the updated dictionary is returned with
  the flag, since the source mutates the stored list in place.
\<close>

type_synonym user_id = int
type_synonym times_dict = "user_id \<rightharpoonup> real list"

definition lookup_times :: "times_dict \<Rightarrow> user_id \<Rightarrow> real list" where
  "lookup_times d user = (case d user of None \<Rightarrow> [] | Some ts \<Rightarrow> ts)"

definition check_spam :: "user_id \<Rightarrow> times_dict \<Rightarrow> real \<Rightarrow> real \<Rightarrow> int \<Rightarrow> bool \<times> times_dict" where
  "check_spam user d now time_window message_limit =
     (let user_times = lookup_times d user;
          user_times = [t \<leftarrow> user_times. now - t < time_window];
          user_times = user_times @ [now]
      in (int (length user_times) > message_limit, d(user \<mapsto> user_times)))"

text \<open>The spec's \<open>admit\<close> is the negation of the spam flag.\<close>

definition admitted :: "user_id \<Rightarrow> times_dict \<Rightarrow> real \<Rightarrow> real \<Rightarrow> int \<Rightarrow> bool" where
  "admitted user d now time_window message_limit =
     (\<not> fst (check_spam user d now time_window message_limit))"

text \<open>
  A run of the limiter: the calls \<open>(user, now)\<close> of a list are made in order on one
  dictionary with one window and one limit, as each of the two limiters of the program is
  used. The result is the list of spam flags and the final dictionary.
\<close>

fun check_spam_calls :: "times_dict \<Rightarrow> real \<Rightarrow> int \<Rightarrow> (user_id \<times> real) list \<Rightarrow> bool list \<times> times_dict" where
  "check_spam_calls d w l [] = ([], d)"
| "check_spam_calls d w l ((user, now) # cs) =
     (let (flag, d') = check_spam user d now w l;
          (flags, d'') = check_spam_calls d' w l cs
      in (flag # flags, d''))"

text \<open>The timestamps of the calls that a list of calls makes for one user, in order.\<close>

definition user_times :: "user_id \<Rightarrow> (user_id \<times> real) list \<Rightarrow> real list" where
  "user_times user cs = map snd [c \<leftarrow> cs. fst c = user]"


text \<open>The two limiters of the program and their parameters.\<close>

definition SPAM_TIME_WINDOW :: real where "SPAM_TIME_WINDOW = 10"
definition SPAM_MESSAGE_LIMIT :: int where "SPAM_MESSAGE_LIMIT = 5"
definition AI_TIME_WINDOW :: real where "AI_TIME_WINDOW = 60"
definition AI_MESSAGE_LIMIT :: int where "AI_MESSAGE_LIMIT = 3"

section \<open>Strings\<close>

text \<open>
  A Python \<open>str\<close> is a sequence of Unicode code points and \<open>len\<close> counts code points, so
  a string is a list of code points here. \<open>ascii\<close> embeds an ASCII literal.
  \<open>lower\<close> and \<open>title\<close> are \<open>str.lower\<close> and \<open>str.title\<close> on the ASCII letters; other
  code points are left as they are and count as uncased. The program applies \<open>lower\<close> to
  the model name only to compare it with two ASCII names, and \<open>title\<close> only to one of
  these two names.
\<close>

type_synonym str = "nat list"

definition ascii :: "string \<Rightarrow> str" where
  "ascii s = map of_char s"

definition is_upper :: "nat \<Rightarrow> bool" where
  "is_upper c \<longleftrightarrow> 65 \<le> c \<and> c \<le> 90"

definition is_lower :: "nat \<Rightarrow> bool" where
  "is_lower c \<longleftrightarrow> 97 \<le> c \<and> c \<le> 122"

definition lower :: "str \<Rightarrow> str" where
  "lower s = map (\<lambda>c. if is_upper c then c + 32 else c) s"

fun title_from :: "bool \<Rightarrow> str \<Rightarrow> str" where
  "title_from previous_is_cased [] = []"
| "title_from previous_is_cased (c # cs) =
     (if is_lower c then (if previous_is_cased then c else c - 32) # title_from True cs
      else if is_upper c then (if previous_is_cased then c + 32 else c) # title_from True cs
      else c # title_from False cs)"

definition title :: "str \<Rightarrow> str" where
  "title s = title_from False s"

section \<open>The AI dispatcher: \<open>ai_command\<close>\<close>

text \<open>
  \<open>range(start, stop, step)\<close> for a positive step, as the chunking loop uses it.
\<close>

function py_range :: "nat \<Rightarrow> nat \<Rightarrow> nat \<Rightarrow> nat list" where
  "py_range i stop step = (if 0 < step \<and> i < stop then i # py_range (i + step) stop step else [])"
  by pat_completeness auto
termination
  by (relation "measure (\<lambda>(i, stop, step). stop - i)") auto

declare py_range.simps [simp del]

text \<open>
  What the handler does to the outside is recorded as a list of actions, in order:
  \<open>Send\<close> is \<open>ctx.send(..., ephemeral=True)\<close>, \<open>Defer\<close> is \<open>ctx.defer()\<close>, \<open>Invoke\<close> is
  the call of the provider's API in the executor (model name and prompt), \<open>Followup\<close> is
  a message accepted by \<open>ctx.followup.send\<close>, \<open>LogError\<close> is \<open>logger.error\<close> with the
  text of the exception.

  The provider is outside the program. Its answer to a call is a parameter: it raises an
  exception \<open>e\<close> (\<open>Raised\<close> carries \<open>str(e)\<close>) or returns the response text, which for the
  chat completion API may be \<open>None\<close>.

  The exceptions that arise in the handler carry their text \<open>str(e)\<close>: the provider's
  exception, the \<open>TypeError\<close> of \<open>len(None)\<close>, and the \<open>AttributeError\<close> of reading an
  attribute that the object does not have.
\<close>

datatype action = Send str | Defer | Invoke str str | Followup str | LogError str

datatype backend_result = Raised str | Returned "str option"

type_synonym backend = "str \<Rightarrow> str \<Rightarrow> backend_result"

datatype exn = ProviderError str | TypeError str | AttributeError str

fun str_of :: "exn \<Rightarrow> str" where
  "str_of (ProviderError e) = e"
| "str_of (TypeError e) = e"
| "str_of (AttributeError e) = e"

text \<open>
  The registry: \<open>openai_client\<close> is set when \<open>OPENAI_API_KEY\<close> was present at startup,
  \<open>GEMINI_API_KEY\<close> when that key was present.
\<close>

record registry =
  openai_client :: bool
  GEMINI_API_KEY :: bool

definition invalid_model_msg :: str where
  "invalid_model_msg = 10060 # ascii '' Invalid AI model. Use `chatgpt` or `gemini`.''"

definition too_many_msg :: str where
  "too_many_msg = 128683 # ascii '' You'' @ 39 # ascii ''re making too many AI requests. Please wait a minute.''"

definition chatgpt_unavailable_msg :: str where
  "chatgpt_unavailable_msg = 10060 # ascii '' ChatGPT is not available (API key missing).''"

definition gemini_unavailable_msg :: str where
  "gemini_unavailable_msg = 10060 # ascii '' Gemini is not available (API key missing).''"

definition answer_prefix :: "str \<Rightarrow> str" where
  "answer_prefix ai_model = 129302 # ascii '' **'' @ title ai_model @ ascii ''**: ''"

definition error_msg :: "str \<Rightarrow> str \<Rightarrow> str" where
  "error_msg ai_model e =
     [9888, 65039] @ ascii '' Error communicating with '' @ title ai_model @ ascii '': '' @ take 100 e"

definition none_has_no_len :: str where
  "none_has_no_len = ascii ''object of type '' @ 39 # ascii ''NoneType'' @ 39 # ascii '' has no len()''"

text \<open>
  The messages that the success path builds for \<open>ctx.followup.send\<close>, in order:
  \<^verbatim>\<open>
  if len(ai_response) > 2000:
      for i in range(0, len(ai_response), 1900):
          chunk = ai_response[i:i+1900]
          if i == 0: send(prefix + chunk)
          else:      send(chunk)
  else:
      send(prefix + ai_response)
  \<close>
\<close>

definition success_messages :: "str \<Rightarrow> str \<Rightarrow> str list" where
  "success_messages ai_model ai_response =
     (if length ai_response > 2000 then
        map (\<lambda>i. let chunk = take 1900 (drop i ai_response)
                  in if i = 0 then answer_prefix ai_model @ chunk else chunk)
            (py_range 0 (length ai_response) 1900)
      else [answer_prefix ai_model @ ai_response])"

text \<open>
  The handler is a hybrid command of \<open>discord.ext.commands\<close>, so its \<open>ctx\<close> is a
  \<open>commands.Context\<close>. That class has \<open>send\<close>, \<open>reply\<close> and \<open>defer\<close>; it has no
  attribute \<open>followup\<close> (the follow-up webhook belongs to \<open>discord.Interaction\<close>). Reading
  \<open>ctx.followup\<close> therefore raises \<open>AttributeError\<close>, and \<open>ctx.followup.send(m)\<close> raises
  it before anything is sent.
\<close>

definition no_followup_msg :: str where
  "no_followup_msg = 39 # ascii ''Context'' @ 39 # ascii '' object has no attribute '' @ 39 # ascii ''followup'' @ [39]"

definition ctx_followup :: "exn + unit" where
  "ctx_followup = Inl (AttributeError no_followup_msg)"

definition followup_send :: "str \<Rightarrow> exn + action" where
  "followup_send m = (case ctx_followup of Inl e \<Rightarrow> Inl e | Inr followup \<Rightarrow> Inr (Followup m))"

text \<open>
  Sending the messages of a list in order stops at the first exception; the result is the
  actions done and the exception, if any.
\<close>

fun followup_all :: "str list \<Rightarrow> action list \<times> exn option" where
  "followup_all [] = ([], None)"
| "followup_all (m # ms) =
     (case followup_send m of
        Inl e \<Rightarrow> ([], Some e)
      | Inr a \<Rightarrow> (let (as, raised) = followup_all ms in (a # as, raised)))"

text \<open>
  The body of the \<open>try\<close> after the call of the provider, and the \<open>except Exception\<close>
  handler: it logs the exception and sends the error notice with \<open>ctx.followup.send\<close>; an
  exception raised there leaves the handler.
\<close>

definition try_answer :: "str \<Rightarrow> backend_result \<Rightarrow> action list \<times> exn option" where
  "try_answer ai_model res =
     (case res of
        Raised e \<Rightarrow> ([], Some (ProviderError e))
      | Returned None \<Rightarrow> ([], Some (TypeError none_has_no_len))
      | Returned (Some ai_response) \<Rightarrow> followup_all (success_messages ai_model ai_response))"

definition except_handler :: "str \<Rightarrow> exn \<Rightarrow> action list \<times> exn option" where
  "except_handler ai_model e =
     (case followup_send (error_msg ai_model (str_of e)) of
        Inl e' \<Rightarrow> ([LogError (str_of e)], Some e')
      | Inr a \<Rightarrow> ([LogError (str_of e), a], None))"

text \<open>
  The handler returns its actions, the dictionary of the AI limiter, and the exception that
  leaves it, if one does.
\<close>

definition ai_command ::
  "registry \<Rightarrow> backend \<Rightarrow> times_dict \<Rightarrow> real \<Rightarrow> user_id \<Rightarrow> str \<Rightarrow> str
     \<Rightarrow> action list \<times> times_dict \<times> exn option" where
  "ai_command reg call user_ai_times now author ai_model0 prompt =
     (let ai_model = lower ai_model0 in
      if ai_model \<notin> set [ascii ''chatgpt'', ascii ''gemini''] then
        ([Send invalid_model_msg], user_ai_times, None)
      else
        let (spam, user_ai_times) = check_spam author user_ai_times now AI_TIME_WINDOW AI_MESSAGE_LIMIT in
        if spam then ([Send too_many_msg], user_ai_times, None)
        else if ai_model = ascii ''chatgpt'' \<and> \<not> openai_client reg then
          ([Send chatgpt_unavailable_msg], user_ai_times, None)
        else if ai_model = ascii ''gemini'' \<and> \<not> GEMINI_API_KEY reg then
          ([Send gemini_unavailable_msg], user_ai_times, None)
        else
          let (sent, raised) = try_answer ai_model (call ai_model prompt) in
          (case raised of
             None \<Rightarrow> ([Defer, Invoke ai_model prompt] @ sent, user_ai_times, None)
           | Some e \<Rightarrow>
               let (handled, escaped) = except_handler ai_model e in
               ([Defer, Invoke ai_model prompt] @ sent @ handled, user_ai_times, escaped)))"

text \<open>The messages that a list of actions hands to the transport, in order.\<close>

fun outbound :: "action list \<Rightarrow> str list" where
  "outbound [] = []"
| "outbound (Send m # as) = m # outbound as"
| "outbound (Followup m # as) = m # outbound as"
| "outbound (a # as) = outbound as"

fun is_invoke :: "action \<Rightarrow> bool" where
  "is_invoke (Invoke ai_model prompt) = True"
| "is_invoke a = False"

text \<open>A provider that gives one fixed answer, for concrete runs.\<close>

definition fixed_backend :: "backend_result \<Rightarrow> backend" where
  "fixed_backend res ai_model prompt = res"

section \<open>The ingress gate: \<open>on_message\<close>\<close>

text \<open>
  The fields of a message that the handler reads. \<open>guild\<close> is the guild's name, \<open>None\<close>
  for a direct message.
\<close>

record message =
  author_bot :: bool
  author_id :: user_id
  author_display_name :: str
  author_str :: str
  content :: str
  channel_name :: str
  guild :: "str option"
  attachments :: "str list"

record embed =
  description :: str
  author_name :: str
  footer :: str
  embed_fields :: "(str \<times> str) list"

text \<open>
  The platform is outside the program: whether \<open>message.reply\<close> and \<open>log_channel.send\<close>
  succeed, raise \<open>discord.Forbidden\<close> or raise something else, and whether
  \<open>get_or_create_logs_channel\<close> yields a channel, are parameters.
\<close>

datatype send_outcome = Sent | Forbidden | Failed

record platform =
  reply_outcome :: send_outcome
  log_channel :: bool
  log_send_outcome :: send_outcome

datatype event_action =
    Reply str nat
  | GetLogsChannel
  | LogSend embed
  | LogWarning
  | LogErr
  | ProcessCommands

datatype completion = Returns | Raises

definition slow_down_msg :: str where
  "slow_down_msg = 128683 # ascii '' Slow down! You'' @ 39 # ascii ''re sending messages too quickly.''"

definition join_lines :: "str list \<Rightarrow> str" where
  "join_lines xs = (case xs of [] \<Rightarrow> [] | y # ys \<Rightarrow> y @ concat (map (\<lambda>z. 10 # z) ys))"

definition log_embed :: "message \<Rightarrow> str \<Rightarrow> embed" where
  "log_embed m guild_name =
     \<lparr>description = (if content m \<noteq> [] then take 1900 (content m) else ascii ''*[No text content]*''),
      author_name = author_display_name m @ ascii '' ('' @ author_str m @ ascii '')'',
      footer = ascii ''#'' @ channel_name m @ [32, 8226, 32] @ guild_name,
      embed_fields = (if attachments m \<noteq> [] then [(ascii ''Attachments'', join_lines (attachments m))] else [])\<rparr>"

definition log_message :: "platform \<Rightarrow> message \<Rightarrow> event_action list" where
  "log_message p m =
     (case guild m of
        None \<Rightarrow> []
      | Some guild_name \<Rightarrow>
          GetLogsChannel #
          (if log_channel p then
             LogSend (log_embed m guild_name) #
             (case log_send_outcome p of Sent \<Rightarrow> [] | Forbidden \<Rightarrow> [LogWarning] | Failed \<Rightarrow> [LogErr])
           else []))"

definition on_message ::
  "platform \<Rightarrow> times_dict \<Rightarrow> real \<Rightarrow> message \<Rightarrow> event_action list \<times> times_dict \<times> completion" where
  "on_message p user_message_times now m =
     (if author_bot m then ([], user_message_times, Returns)
      else
        let (spam, user_message_times) =
              check_spam (author_id m) user_message_times now SPAM_TIME_WINDOW SPAM_MESSAGE_LIMIT in
        if spam then
          ([Reply slow_down_msg 5], user_message_times,
           (case reply_outcome p of Sent \<Rightarrow> Returns | Forbidden \<Rightarrow> Returns | Failed \<Rightarrow> Raises))
        else (log_message p m @ [ProcessCommands], user_message_times, Returns))"

fun is_audit :: "event_action \<Rightarrow> bool" where
  "is_audit GetLogsChannel = True"
| "is_audit (LogSend e) = True"
| "is_audit a = False"

section \<open>Properties of the limiter\<close>

lemma lookup_times_empty: "lookup_times Map.empty user = []"
  by (simp add: lookup_times_def)

lemma lookup_times_upd: "lookup_times (d(u \<mapsto> ts)) user = (if user = u then ts else lookup_times d user)"
  by (simp add: lookup_times_def)

lemma snd_check_spam:
  "lookup_times (snd (check_spam user d now w l)) u =
     (if u = user then [t \<leftarrow> lookup_times d user. now - t < w] @ [now] else lookup_times d u)"
  by (simp add: check_spam_def lookup_times_upd Let_def)

lemma fst_check_spam:
  "fst (check_spam user d now w l) \<longleftrightarrow> int (length [t \<leftarrow> lookup_times d user. now - t < w]) + 1 > l"
  by (auto simp: check_spam_def Let_def)

lemma user_times_Nil: "user_times user [] = []"
  by (simp add: user_times_def)

lemma user_times_Cons:
  "user_times user ((u, now) # cs) = (if u = user then now # user_times user cs else user_times user cs)"
  by (simp add: user_times_def)

lemma user_times_append: "user_times user (cs @ cs') = user_times user cs @ user_times user cs'"
  by (simp add: user_times_def)

lemma check_spam_calls_Nil: "snd (check_spam_calls d w l []) = d"
  by simp

lemma check_spam_calls_Cons:
  "snd (check_spam_calls d w l ((u, now) # cs)) = snd (check_spam_calls (snd (check_spam u d now w l)) w l cs)"
  by (simp add: split_def Let_def)

declare check_spam_calls.simps [simp del]

lemma check_spam_calls_append:
  "snd (check_spam_calls d w l (cs @ cs')) = snd (check_spam_calls (snd (check_spam_calls d w l cs)) w l cs')"
  by (induction cs arbitrary: d) (auto simp: check_spam_calls_Nil check_spam_calls_Cons)

text \<open>
  Timestamps that every later call of the user retains stay at the end of the stored
  sequence, followed by the timestamps of those calls; what stands before them can only
  shrink.
\<close>

lemma calls_keep_recent:
  assumes "lookup_times d user = xs @ zs"
    and "\<forall>t \<in> set zs \<union> set (user_times user cs). \<forall>now \<in> set (user_times user cs). now - t < w"
  shows "\<exists>ys. lookup_times (snd (check_spam_calls d w l cs)) user = ys @ zs @ user_times user cs
            \<and> set ys \<subseteq> set xs"
  using assms
proof (induction cs arbitrary: d xs zs)
  case Nil
  then show ?case by (simp add: user_times_Nil check_spam_calls_Nil)
next
  case (Cons c cs)
  obtain u now where c: "c = (u, now)" by (cases c)
  let ?d' = "snd (check_spam u d now w l)"
  show ?case
  proof (cases "u = user")
    case True
    have keep: "[t \<leftarrow> zs. now - t < w] = zs"
      using Cons.prems(2) by (auto simp: c True user_times_Cons intro: filter_True)
    have d': "lookup_times ?d' user = [t \<leftarrow> xs. now - t < w] @ (zs @ [now])"
      by (simp add: snd_check_spam True Cons.prems(1) keep)
    have later: "\<forall>t \<in> set (zs @ [now]) \<union> set (user_times user cs).
                   \<forall>now' \<in> set (user_times user cs). now' - t < w"
      using Cons.prems(2) by (auto simp: c True user_times_Cons)
    from Cons.IH [OF d' later] obtain ys where
      ys: "lookup_times (snd (check_spam_calls ?d' w l cs)) user = ys @ (zs @ [now]) @ user_times user cs"
      and sub: "set ys \<subseteq> set [t \<leftarrow> xs. now - t < w]"
      by blast
    show ?thesis
      using ys sub by (auto simp: c True check_spam_calls_Cons user_times_Cons)
  next
    case False
    have d': "lookup_times ?d' user = xs @ zs"
      using False by (simp add: snd_check_spam Cons.prems(1))
    have later: "\<forall>t \<in> set zs \<union> set (user_times user cs).
                   \<forall>now' \<in> set (user_times user cs). now' - t < w"
      using Cons.prems(2) False by (simp add: c user_times_Cons)
    from Cons.IH [OF d' later] show ?thesis
      using False by (simp add: c check_spam_calls_Cons user_times_Cons)
  qed
qed

lemma calls_keep_all:
  assumes "\<forall>t \<in> set (lookup_times d user) \<union> set (user_times user cs).
             \<forall>now \<in> set (user_times user cs). now - t < w"
  shows "lookup_times (snd (check_spam_calls d w l cs)) user = lookup_times d user @ user_times user cs"
  using calls_keep_recent [of d user "[]" "lookup_times d user" cs w l] assms by simp

text \<open>
  A burst: the stored timestamps have all expired when the span \<open>[s, s + w)\<close> begins, and
  the user's calls all fall into the span. From the first call on, the stored sequence is
  the sequence of the user's calls.
\<close>

lemma calls_burst:
  assumes "\<forall>t \<in> set (lookup_times d user). s - t \<ge> w"
    and "\<forall>t \<in> set (user_times user cs). s \<le> t \<and> t < s + w"
    and "user_times user cs \<noteq> []"
  shows "lookup_times (snd (check_spam_calls d w l cs)) user = user_times user cs"
  using assms
proof (induction cs arbitrary: d)
  case Nil
  then show ?case by (simp add: user_times_Nil)
next
  case (Cons c cs)
  obtain u now where c: "c = (u, now)" by (cases c)
  let ?d' = "snd (check_spam u d now w l)"
  show ?case
  proof (cases "u = user")
    case True
    have now: "s \<le> now" "now < s + w"
      using Cons.prems(2) by (simp_all add: c True user_times_Cons)
    have "[t \<leftarrow> lookup_times d user. now - t < w] = []"
      using Cons.prems(1) now by (auto simp: filter_empty_conv)
    then have d': "lookup_times ?d' user = [now]"
      by (simp add: snd_check_spam True)
    have span: "\<forall>t \<in> set (user_times user cs). s \<le> t \<and> t < s + w"
      using Cons.prems(2) by (simp add: c True user_times_Cons)
    have "\<forall>t \<in> set (lookup_times ?d' user) \<union> set (user_times user cs).
            \<forall>now' \<in> set (user_times user cs). now' - t < w"
      unfolding d'
    proof (intro ballI)
      fix t now'
      assume t: "t \<in> set [now] \<union> set (user_times user cs)"
        and now': "now' \<in> set (user_times user cs)"
      from t span now have "s \<le> t" by auto
      moreover from now' span have "now' < s + w" by auto
      ultimately show "now' - t < w" by linarith
    qed
    from calls_keep_all [OF this, of l] d' show ?thesis
      by (simp add: c True check_spam_calls_Cons user_times_Cons)
  next
    case False
    have "lookup_times ?d' user = lookup_times d user"
      using False by (simp add: snd_check_spam)
    with Cons.prems False have
      "lookup_times (snd (check_spam_calls ?d' w l cs)) user = user_times user cs"
      by (intro Cons.IH) (simp_all add: c user_times_Cons)
    then show ?thesis
      by (simp add: c False check_spam_calls_Cons user_times_Cons)
  qed
qed


lemma burst_retained:
  assumes old: "\<forall>t \<in> set (lookup_times d user). s - t \<ge> w"
    and span: "\<forall>t \<in> set (user_times user cs @ [now]). s \<le> t \<and> t < s + w"
  shows "[t \<leftarrow> lookup_times (snd (check_spam_calls d w l cs)) user. now - t < w] = user_times user cs"
proof (cases "user_times user cs = []")
  case True
  have "\<forall>t \<in> set (lookup_times d user) \<union> set (user_times user cs).
          \<forall>now' \<in> set (user_times user cs). now' - t < w"
    by (simp add: True)
  from calls_keep_all [OF this, of l]
  have "lookup_times (snd (check_spam_calls d w l cs)) user = lookup_times d user"
    by (simp add: True)
  moreover have "[t \<leftarrow> lookup_times d user. now - t < w] = []"
    using old span by (fastforce simp: filter_empty_conv)
  ultimately show ?thesis by (simp add: True)
next
  case False
  from span have "\<forall>t \<in> set (user_times user cs). s \<le> t \<and> t < s + w" by simp
  from calls_burst [OF old this False, of l]
  have eq: "lookup_times (snd (check_spam_calls d w l cs)) user = user_times user cs" .
  have "\<forall>t \<in> set (user_times user cs). now - t < w"
    using span by fastforce
  then show ?thesis unfolding eq by (simp add: filter_True)
qed

lemma span_retained:
  assumes span: "\<forall>t \<in> set (user_times user cs @ [now]). s \<le> t \<and> t < s + w"
  shows "length (user_times user cs)
           \<le> length [t \<leftarrow> lookup_times (snd (check_spam_calls d w l cs)) user. now - t < w]"
proof -
  have within: "now' - t < w"
    if "t \<in> set (user_times user cs @ [now])" "now' \<in> set (user_times user cs @ [now])" for t now'
  proof -
    from span that have "s \<le> t" "now' < s + w" by auto
    then show ?thesis by linarith
  qed
  have "\<forall>t \<in> set [] \<union> set (user_times user cs). \<forall>now' \<in> set (user_times user cs). now' - t < w"
    using within by simp
  from calls_keep_recent [of d user "lookup_times d user" "[]" cs w l, OF _ this]
  obtain ys where ys: "lookup_times (snd (check_spam_calls d w l cs)) user = ys @ user_times user cs"
    by auto
  have "[t \<leftarrow> user_times user cs. now - t < w] = user_times user cs"
    using within by (simp add: filter_True)
  then show ?thesis unfolding ys by simp
qed

text \<open>With a clock that never runs backwards, every stored sequence stays sorted.\<close>

lemma calls_sorted:
  assumes "sorted (map snd cs)"
    and "\<forall>u. sorted (lookup_times d u)"
    and "\<forall>u. \<forall>t \<in> set (lookup_times d u). \<forall>c \<in> set cs. t \<le> snd c"
  shows "sorted (lookup_times (snd (check_spam_calls d w l cs)) user)"
  using assms
proof (induction cs arbitrary: d)
  case Nil
  then show ?case by (simp add: check_spam_calls_Nil)
next
  case (Cons c cs)
  obtain u now where c: "c = (u, now)" by (cases c)
  let ?d' = "snd (check_spam u d now w l)"
  have later: "\<forall>c' \<in> set cs. now \<le> snd c'"
    using Cons.prems(1) by (simp add: c)
  have old: "\<forall>v. \<forall>t \<in> set (lookup_times d v). t \<le> now"
    using Cons.prems(3) by (simp add: c)
  have 1: "sorted (map snd cs)"
    using Cons.prems(1) by simp
  have 2: "\<forall>v. sorted (lookup_times ?d' v)"
    using Cons.prems(2) old by (auto simp: snd_check_spam sorted_append intro: sorted_wrt_filter)
  have 3: "\<forall>v. \<forall>t \<in> set (lookup_times ?d' v). \<forall>c' \<in> set cs. t \<le> snd c'"
    using Cons.prems(3) later by (auto simp: snd_check_spam c)
  from Cons.IH [OF 1 2 3] show ?case
    by (simp add: c check_spam_calls_Cons)
qed

lemma check_spam_all_kept:
  assumes "\<forall>t \<in> set (lookup_times d user). now - t < w"
  shows "lookup_times (snd (check_spam user d now w l)) user = lookup_times d user @ [now]
       \<and> (fst (check_spam user d now w l) \<longleftrightarrow> l < int (length (lookup_times d user)) + 1)"
proof -
  from assms have "[t \<leftarrow> lookup_times d user. now - t < w] = lookup_times d user"
    by (rule filter_True)
  then show ?thesis
    by (simp add: snd_check_spam fst_check_spam)
qed

section \<open>Claims about the limiter\<close>

text \<open>
  Claim C1. One admission check reads the clock, drops from the key's stored sequence every
  timestamp \<open>t\<close> with \<open>now - t \<ge> w\<close>, appends \<open>now\<close>, stores the result under the key,
  and admits the call exactly when the stored sequence is then at most \<open>l\<close> long.
  Consequently, in a span \<open>[s, s + w)\<close> at whose start every timestamp stored for the key
  has expired (\<open>s - t \<ge> w\<close>; a key never seen has none), the call that follows the
  key's calls \<open>cs\<close> of the span is admitted exactly when it is among the first \<open>l\<close> of the
  span, calls for other keys in between changing nothing; and in any span \<open>[s', s' + w)\<close>,
  whatever was stored before, a call that follows \<open>l\<close> or more calls of the key in the
  span is rejected.
\<close>

theorem C1_admission_step_and_burst:
  "check_spam user d now w l =
     (\<not> int (length ([t \<leftarrow> lookup_times d user. \<not> now - t \<ge> w] @ [now])) \<le> l,
      d(user \<mapsto> [t \<leftarrow> lookup_times d user. \<not> now - t \<ge> w] @ [now]))
   \<and> (admitted user d now w l
        \<longleftrightarrow> int (length ([t \<leftarrow> lookup_times d user. \<not> now - t \<ge> w] @ [now])) \<le> l)
   \<and> ((\<forall>t \<in> set (lookup_times d user). s - t \<ge> w)
        \<and> (\<forall>t \<in> set (user_times user cs @ [now]). s \<le> t \<and> t < s + w)
      \<longrightarrow> (admitted user (snd (check_spam_calls d w l cs)) now w l
             \<longleftrightarrow> int (length (user_times user cs)) + 1 \<le> l))
   \<and> ((\<forall>t \<in> set (user_times user cs' @ [now']). s' \<le> t \<and> t < s' + w)
        \<and> l \<le> int (length (user_times user cs'))
      \<longrightarrow> \<not> admitted user (snd (check_spam_calls d' w l cs')) now' w l)"
proof (intro conjI impI)
  have neg: "(\<lambda>t. \<not> now - t \<ge> w) = (\<lambda>t. now - t < w)"
    by (auto simp: fun_eq_iff)
  show "check_spam user d now w l =
     (\<not> int (length ([t \<leftarrow> lookup_times d user. \<not> now - t \<ge> w] @ [now])) \<le> l,
      d(user \<mapsto> [t \<leftarrow> lookup_times d user. \<not> now - t \<ge> w] @ [now]))"
    unfolding neg by (auto simp: check_spam_def Let_def)
  show "admitted user d now w l
        \<longleftrightarrow> int (length ([t \<leftarrow> lookup_times d user. \<not> now - t \<ge> w] @ [now])) \<le> l"
    unfolding neg by (auto simp: admitted_def fst_check_spam)
next
  assume "(\<forall>t \<in> set (lookup_times d user). s - t \<ge> w)
        \<and> (\<forall>t \<in> set (user_times user cs @ [now]). s \<le> t \<and> t < s + w)"
  then have "[t \<leftarrow> lookup_times (snd (check_spam_calls d w l cs)) user. now - t < w] = user_times user cs"
    by (intro burst_retained) blast+
  then show "admitted user (snd (check_spam_calls d w l cs)) now w l
             \<longleftrightarrow> int (length (user_times user cs)) + 1 \<le> l"
    by (auto simp: admitted_def fst_check_spam)
next
  assume h: "(\<forall>t \<in> set (user_times user cs' @ [now']). s' \<le> t \<and> t < s' + w)
        \<and> l \<le> int (length (user_times user cs'))"
  then have "length (user_times user cs')
           \<le> length [t \<leftarrow> lookup_times (snd (check_spam_calls d' w l cs')) user. now' - t < w]"
    by (intro span_retained) blast
  with h show "\<not> admitted user (snd (check_spam_calls d' w l cs')) now' w l"
    by (simp add: admitted_def fst_check_spam)
qed

text \<open>
  A run of C1: the timestamp 0 has expired at 20; the key 7 calls at 20 and 22, key 8 in
  between, and the third call of key 7, at 25 with limit 2, is rejected.
\<close>

theorem C1_admission_step_and_burst_witness:
  "lookup_times (Map.empty(7 \<mapsto> [0])) 7 = [0] \<and> (20::real) - 0 \<ge> 10
   \<and> user_times 7 [(7, 20), (8, 21), (7, 22)] @ [25] = [20, 22, 25]
   \<and> (20::real) \<le> 20 \<and> (25::real) < 20 + 10 \<and> (2::int) \<le> int (length [20, 22 :: real])
   \<and> check_spam 7 (Map.empty(7 \<mapsto> [0])) 25 10 2 = (False, Map.empty(7 \<mapsto> [25]))
   \<and> admitted 7 (Map.empty(7 \<mapsto> [0])) 25 10 2
   \<and> \<not> admitted 7 (snd (check_spam_calls (Map.empty(7 \<mapsto> [0])) 10 2 [(7, 20), (8, 21), (7, 22)])) 25 10 2"
  using C1_admission_step_and_burst [of 7 "Map.empty(7 \<mapsto> [0])" 25 10 2 20 "[(7, 20), (8, 21), (7, 22)]"
      "[(7, 20), (8, 21), (7, 22)]" 25 20 "Map.empty(7 \<mapsto> [0])"]
  by (simp add: lookup_times_def user_times_def)

text \<open>
  The consequence of C1 does not hold for every rolling span. With window 10 and limit 1,
  a key calls at 0, 5 and 12. The calls at 5 and 12 lie in the span \<open>[5, 15)\<close>, 7 seconds
  apart, and the first of them is rejected, because the timestamp 0 is still in the window.
\<close>

theorem C1_rolling_span_counterexample:
  "fst (check_spam_calls Map.empty 10 1 [(7, 0), (7, 5), (7, 12)]) = [False, True, True]
   \<and> (12::real) - 5 < 10"
  by (simp add: check_spam_calls.simps check_spam_def lookup_times_def)



text \<open>
  Claim C8. Every check stores the retained timestamps followed by the current time,
  whether it admits or rejects, and leaves the other keys alone; the call is rejected
  exactly when the stored sequence is then longer than the limit, so in a burst that
  starts with an expired window the call after \<open>n\<close> calls is rejected exactly when
  \<open>n + 1\<close> exceeds the limit, and it is recorded as the last timestamp all the same. After
  a rejected call, a call that comes while all stored timestamps are still in the window is
  rejected as well. After a check, every stored timestamp \<open>t\<close> of the key has
  \<open>now - t < w\<close> provided the window is positive (the timestamp just stored has age 0), and
  the stored sequences are sorted provided the clock readings of the successive checks
  never decrease.
\<close>

theorem C8_every_check_is_recorded:
  "lookup_times (snd (check_spam user d now w l)) user = [t \<leftarrow> lookup_times d user. now - t < w] @ [now]
   \<and> (u \<noteq> user \<longrightarrow> lookup_times (snd (check_spam user d now w l)) u = lookup_times d u)
   \<and> (fst (check_spam user d now w l)
        \<longleftrightarrow> int (length (lookup_times (snd (check_spam user d now w l)) user)) \<ge> l + 1)
   \<and> ((\<forall>t \<in> set (lookup_times d0 user). s - t \<ge> w)
        \<and> (\<forall>t \<in> set (user_times user cs @ [now0]). s \<le> t \<and> t < s + w)
      \<longrightarrow> (fst (check_spam user (snd (check_spam_calls d0 w l cs)) now0 w l)
             \<longleftrightarrow> int (length (user_times user cs)) + 1 \<ge> l + 1)
          \<and> lookup_times (snd (check_spam user (snd (check_spam_calls d0 w l cs)) now0 w l)) user
              = user_times user cs @ [now0])
   \<and> (fst (check_spam user d now w l)
        \<and> (\<forall>t \<in> set (lookup_times (snd (check_spam user d now w l)) user). now' - t < w)
      \<longrightarrow> fst (check_spam user (snd (check_spam user d now w l)) now' w l)
          \<and> lookup_times (snd (check_spam user (snd (check_spam user d now w l)) now' w l)) user
              = lookup_times (snd (check_spam user d now w l)) user @ [now'])
   \<and> (0 < w \<longrightarrow> (\<forall>t \<in> set (lookup_times (snd (check_spam user d now w l)) user). now - t < w))
   \<and> (sorted (map snd calls)
      \<longrightarrow> sorted (lookup_times (snd (check_spam_calls Map.empty w l calls)) u'))"
proof (intro conjI impI)
  show "lookup_times (snd (check_spam user d now w l)) user = [t \<leftarrow> lookup_times d user. now - t < w] @ [now]"
    by (simp add: snd_check_spam)
  show "lookup_times (snd (check_spam user d now w l)) u = lookup_times d u" if "u \<noteq> user"
    using that by (simp add: snd_check_spam)
  show "fst (check_spam user d now w l)
        \<longleftrightarrow> int (length (lookup_times (snd (check_spam user d now w l)) user)) \<ge> l + 1"
    by (auto simp: snd_check_spam fst_check_spam)
  show "\<forall>t \<in> set (lookup_times (snd (check_spam user d now w l)) user). now - t < w" if "0 < w"
    using that by (simp add: snd_check_spam)
  show "sorted (lookup_times (snd (check_spam_calls Map.empty w l calls)) u')" if "sorted (map snd calls)"
    using that by (intro calls_sorted) (simp_all add: lookup_times_empty)
next
  assume "(\<forall>t \<in> set (lookup_times d0 user). s - t \<ge> w)
        \<and> (\<forall>t \<in> set (user_times user cs @ [now0]). s \<le> t \<and> t < s + w)"
  then have kept: "[t \<leftarrow> lookup_times (snd (check_spam_calls d0 w l cs)) user. now0 - t < w] = user_times user cs"
    by (intro burst_retained) blast+
  show "fst (check_spam user (snd (check_spam_calls d0 w l cs)) now0 w l)
             \<longleftrightarrow> int (length (user_times user cs)) + 1 \<ge> l + 1"
    by (auto simp: fst_check_spam kept)
  show "lookup_times (snd (check_spam user (snd (check_spam_calls d0 w l cs)) now0 w l)) user
              = user_times user cs @ [now0]"
    by (simp add: snd_check_spam kept)
next
  let ?d = "snd (check_spam user d now w l)"
  assume h: "fst (check_spam user d now w l) \<and> (\<forall>t \<in> set (lookup_times ?d user). now' - t < w)"
  then have all: "\<forall>t \<in> set (lookup_times ?d user). now' - t < w"
    by blast
  from h have "l < int (length (lookup_times ?d user))"
    by (simp add: fst_check_spam snd_check_spam)
  with check_spam_all_kept [OF all, of l]
  show "fst (check_spam user ?d now' w l)"
    by simp
  from check_spam_all_kept [OF all, of l]
  show "lookup_times (snd (check_spam user ?d now' w l)) user = lookup_times ?d user @ [now']"
    by simp
qed

text \<open>
  A run of C8 with window 10 and limit 2: from an expired timestamp, calls at 20 and 22
  are admitted; the third call, at 25, is rejected and recorded; the fourth, at 26, is
  rejected and recorded too.
\<close>

theorem C8_every_check_is_recorded_witness:
  "(8::int) \<noteq> 7
   \<and> lookup_times (Map.empty(7 \<mapsto> [0])) 7 = [0] \<and> (20::real) - 0 \<ge> 10
   \<and> user_times 7 [(7, 20), (8, 21), (7, 22)] @ [25] = [20, 22, 25]
   \<and> (20::real) \<le> 20 \<and> (25::real) < 20 + 10
   \<and> fst (check_spam 7 (snd (check_spam_calls (Map.empty(7 \<mapsto> [0])) 10 2 [(7, 20), (8, 21), (7, 22)])) 25 10 2)
   \<and> lookup_times (snd (check_spam 7 (snd (check_spam_calls (Map.empty(7 \<mapsto> [0])) 10 2
        [(7, 20), (8, 21), (7, 22)])) 25 10 2)) 7 = [20, 22, 25]
   \<and> fst (check_spam 7 (Map.empty(7 \<mapsto> [20, 22])) 25 10 2)
   \<and> lookup_times (snd (check_spam 7 (Map.empty(7 \<mapsto> [20, 22])) 25 10 2)) 7 = [20, 22, 25]
   \<and> (26::real) - 20 < 10
   \<and> fst (check_spam 7 (snd (check_spam 7 (Map.empty(7 \<mapsto> [20, 22])) 25 10 2)) 26 10 2)
   \<and> lookup_times (snd (check_spam 7 (snd (check_spam 7 (Map.empty(7 \<mapsto> [20, 22])) 25 10 2)) 26 10 2)) 7
        = [20, 22, 25, 26]
   \<and> (0::real) < 10
   \<and> sorted (map snd [(7::int, 20::real), (8, 21), (7, 22)])
   \<and> sorted (lookup_times (snd (check_spam_calls Map.empty 10 2 [(7, 20), (8, 21), (7, 22)])) 7)"
  using C8_every_check_is_recorded [of 7 "Map.empty(7 \<mapsto> [20, 22])" 25 10 2 8 "Map.empty(7 \<mapsto> [0])" 20
      "[(7, 20), (8, 21), (7, 22)]" 25 26 "[(7, 20), (8, 21), (7, 22)]" 7]
  by (simp add: lookup_times_def user_times_def check_spam_calls.simps check_spam_def)

text \<open>
  Without these two provisos the invariants of C8 fail. The clock is \<open>time.time()\<close>, which
  may step back: with window 10, a key checked at 100 and then at 50 has the stored
  sequence \<open>[100, 50]\<close>, which is not sorted. And with window 0 the timestamp stored by a
  check at 5 has age 0, which is not below the window.
\<close>

theorem C8_clock_steps_back_counterexample:
  "lookup_times (snd (check_spam_calls Map.empty 10 5 [(1, 100), (1, 50)])) 1 = [100, 50]
   \<and> \<not> sorted [100, 50 :: real]
   \<and> lookup_times (snd (check_spam 1 Map.empty 5 0 5)) 1 = [5]
   \<and> \<not> (5::real) - 5 < 0"
  by (simp add: check_spam_calls.simps check_spam_def lookup_times_def)

section \<open>Properties of the dispatcher\<close>

lemma names_differ: "ascii ''chatgpt'' \<noteq> ascii ''gemini''"
  by (simp add: ascii_def)

lemma py_range_first: "0 < step \<Longrightarrow> i < stop \<Longrightarrow> py_range i stop step = i # py_range (i + step) stop step"
  by (subst py_range.simps) simp

lemma success_messages_not_Nil: "success_messages ai_model r \<noteq> []"
proof (cases "2000 < length r")
  case True
  then have "py_range 0 (length r) 1900 = 0 # py_range (0 + 1900) (length r) 1900"
    by (intro py_range_first) auto
  with True show ?thesis
    by (simp add: success_messages_def)
next
  case False
  then show ?thesis
    by (simp add: success_messages_def)
qed

lemma followup_send_raises: "followup_send m = Inl (AttributeError no_followup_msg)"
  by (simp add: followup_send_def ctx_followup_def)

lemma followup_all_raises: "ms \<noteq> [] \<Longrightarrow> followup_all ms = ([], Some (AttributeError no_followup_msg))"
  by (cases ms) (simp_all add: followup_send_raises)

text \<open>
  Whatever the provider does, the body of the \<open>try\<close> ends in an exception before any
  message is sent, and the handler of the exception logs it and raises in its turn.
\<close>

lemma try_answer_raises:
  "try_answer ai_model res =
     ([], Some (case res of
                  Raised e \<Rightarrow> ProviderError e
                | Returned None \<Rightarrow> TypeError none_has_no_len
                | Returned (Some ai_response) \<Rightarrow> AttributeError no_followup_msg))"
  by (simp add: try_answer_def followup_all_raises success_messages_not_Nil
      split: backend_result.splits option.splits)

lemma except_handler_raises:
  "except_handler ai_model e = ([LogError (str_of e)], Some (AttributeError no_followup_msg))"
  by (simp add: except_handler_def followup_send_raises)

text \<open>
  A valid request that the limiter admits and whose provider is available: the handler
  defers, calls the provider and logs an exception; no message reaches the transport and
  \<open>AttributeError\<close> leaves the handler. The dictionary is the one the admission check left.
\<close>

lemma ai_command_proceeds:
  assumes "lower m0 = ascii ''chatgpt'' \<and> openai_client reg \<or> lower m0 = ascii ''gemini'' \<and> GEMINI_API_KEY reg"
    and "\<not> fst (check_spam author d now AI_TIME_WINDOW AI_MESSAGE_LIMIT)"
  shows "ai_command reg call d now author m0 prompt =
     ([Defer, Invoke (lower m0) prompt,
       LogError (case call (lower m0) prompt of
                   Raised e \<Rightarrow> e
                 | Returned None \<Rightarrow> none_has_no_len
                 | Returned (Some ai_response) \<Rightarrow> no_followup_msg)],
      snd (check_spam author d now AI_TIME_WINDOW AI_MESSAGE_LIMIT),
      Some (AttributeError no_followup_msg))"
  using assms names_differ
  by (auto simp: ai_command_def Let_def split_def try_answer_raises except_handler_raises
      split: backend_result.splits option.splits)

lemmas eval_defs = ai_command_def lower_def ascii_def is_upper_def is_lower_def check_spam_def
  lookup_times_def AI_TIME_WINDOW_def AI_MESSAGE_LIMIT_def fixed_backend_def success_messages_def
  answer_prefix_def title_def error_msg_def try_answer_def except_handler_def followup_send_def
  ctx_followup_def

text \<open>
  The message that the success path builds for a response of 1901 characters is the prefix
  followed by the whole response, 1916 characters.
\<close>

lemma built_message_1901:
  "map length (success_messages (ascii ''chatgpt'') (replicate 1901 120)) = [1916]"
  by (simp add: success_messages_def answer_prefix_def title_def ascii_def is_upper_def is_lower_def)

section \<open>Claims about the dispatcher\<close>


text \<open>
  Claim C3 says that a response of 5000 characters goes out as three chunks of 1900, 1900
  and 1200 characters, the first with the provider prefix. At this request (\<open>gemini\<close>, key
  present, the provider returns 5000 characters) the loop fails at \<open>ctx.followup\<close> in its
  first round: no chunk reaches the transport, and the exception leaves the handler.
\<close>

theorem C3_no_chunk_sent:
  "ai_command \<lparr>openai_client = False, GEMINI_API_KEY = True\<rparr>
      (fixed_backend (Returned (Some (replicate 5000 120)))) Map.empty 0 1 (ascii ''gemini'') (ascii ''hi'')
     = ([Defer, Invoke (ascii ''gemini'') (ascii ''hi''), LogError no_followup_msg],
        Map.empty(1 \<mapsto> [0]), Some (AttributeError no_followup_msg))
   \<and> outbound (fst (ai_command \<lparr>openai_client = False, GEMINI_API_KEY = True\<rparr>
      (fixed_backend (Returned (Some (replicate 5000 120)))) Map.empty 0 1 (ascii ''gemini'') (ascii ''hi'')))
     = []"
  by (simp add: eval_defs py_range_first)

text \<open>
  Claim C4 says that when the provider raises, one message goes out that names the
  provider and holds at most 100 characters of the exception's text, and that the user's
  timestamp of this request stays in the AI limiter. At this request (\<open>chatgpt\<close>, key
  present, the provider raises with a text of 150 characters) the exception is logged and
  the notice fails at \<open>ctx.followup\<close>: no message reaches the transport and
  \<open>AttributeError\<close> leaves the handler. The timestamp 0 of the request is stored.
\<close>

theorem C4_error_notice_not_sent:
  "ai_command \<lparr>openai_client = True, GEMINI_API_KEY = False\<rparr>
      (fixed_backend (Raised (replicate 150 120))) Map.empty 0 1 (ascii ''chatgpt'') (ascii ''hi'')
     = ([Defer, Invoke (ascii ''chatgpt'') (ascii ''hi''), LogError (replicate 150 120)],
        Map.empty(1 \<mapsto> [0]), Some (AttributeError no_followup_msg))
   \<and> outbound (fst (ai_command \<lparr>openai_client = True, GEMINI_API_KEY = False\<rparr>
      (fixed_backend (Raised (replicate 150 120))) Map.empty 0 1 (ascii ''chatgpt'') (ascii ''hi'')))
     = []
   \<and> lookup_times (fst (snd (ai_command \<lparr>openai_client = True, GEMINI_API_KEY = False\<rparr>
      (fixed_backend (Raised (replicate 150 120))) Map.empty 0 1 (ascii ''chatgpt'') (ascii ''hi'')))) 1
     = [0]"
  by (simp add: eval_defs)

text \<open>
  Claim C5. When the lower-cased model name is neither \<open>chatgpt\<close> nor \<open>gemini\<close>, the
  handler sends the one message that says so and does nothing else: the dictionary of the
  AI limiter is returned as it was, and the result depends neither on the registry nor on
  the provider, which is not called, nor on the clock.
\<close>

theorem C5_invalid_model:
  assumes "lower m0 \<notin> set [ascii ''chatgpt'', ascii ''gemini'']"
  shows "ai_command reg call d now author m0 prompt = ([Send invalid_model_msg], d, None)"
  using assms by (simp add: ai_command_def Let_def)

text \<open>A run of C5: the name \<open>Claude\<close> is refused, whatever the dictionary holds.\<close>

theorem C5_invalid_model_witness:
  "lower (ascii ''Claude'') \<notin> set [ascii ''chatgpt'', ascii ''gemini'']
   \<and> ai_command \<lparr>openai_client = True, GEMINI_API_KEY = True\<rparr> (fixed_backend (Returned (Some (ascii ''hello''))))
        (Map.empty(1 \<mapsto> [0, 1, 2])) 3 1 (ascii ''Claude'') (ascii ''hi'')
      = ([Send invalid_model_msg], Map.empty(1 \<mapsto> [0, 1, 2]), None)"
proof -
  have invalid: "lower (ascii ''Claude'') \<notin> set [ascii ''chatgpt'', ascii ''gemini'']"
    by (simp add: lower_def ascii_def is_upper_def)
  from C5_invalid_model [OF invalid] invalid show ?thesis
    by blast
qed

text \<open>
  Claim C6. A valid request that the limiter admits, for a provider whose key was missing
  at startup, gets exactly one message and the handler returns: the message is the cross
  mark, the provider's name (\<open>ChatGPT\<close> or \<open>Gemini\<close>) and the words "is not available (API
  key missing)."; no provider is called, whatever the provider would answer.
\<close>

theorem C6_backend_unavailable:
  assumes "lower m0 = ascii ''chatgpt'' \<and> \<not> openai_client reg
         \<or> lower m0 = ascii ''gemini'' \<and> \<not> GEMINI_API_KEY reg"
    and "\<not> fst (check_spam author d now AI_TIME_WINDOW AI_MESSAGE_LIMIT)"
  shows "ai_command reg call d now author m0 prompt =
           ([Send ([10060, 32]
                   @ (if lower m0 = ascii ''chatgpt'' then ascii ''ChatGPT'' else ascii ''Gemini'')
                   @ ascii '' is not available (API key missing).'')],
            snd (check_spam author d now AI_TIME_WINDOW AI_MESSAGE_LIMIT), None)
       \<and> \<not> list_ex is_invoke (fst (ai_command reg call d now author m0 prompt))"
proof -
  have chatgpt: "chatgpt_unavailable_msg = [10060, 32] @ ascii ''ChatGPT'' @ ascii '' is not available (API key missing).''"
    by (simp add: chatgpt_unavailable_msg_def ascii_def)
  have gemini: "gemini_unavailable_msg = [10060, 32] @ ascii ''Gemini'' @ ascii '' is not available (API key missing).''"
    by (simp add: gemini_unavailable_msg_def ascii_def)
  have "ai_command reg call d now author m0 prompt =
      ([Send (if lower m0 = ascii ''chatgpt'' then chatgpt_unavailable_msg else gemini_unavailable_msg)],
       snd (check_spam author d now AI_TIME_WINDOW AI_MESSAGE_LIMIT), None)"
    using assms names_differ by (auto simp: ai_command_def Let_def split_def)
  then show ?thesis
    by (simp add: chatgpt gemini)
qed

text \<open>
  A run of C6: \<open>Gemini\<close> is asked for while only the OpenAI key is present.
\<close>

theorem C6_backend_unavailable_witness:
  "lower (ascii ''Gemini'') = ascii ''gemini''
   \<and> \<not> GEMINI_API_KEY \<lparr>openai_client = True, GEMINI_API_KEY = False\<rparr>
   \<and> \<not> fst (check_spam 1 Map.empty 0 AI_TIME_WINDOW AI_MESSAGE_LIMIT)
   \<and> fst (ai_command \<lparr>openai_client = True, GEMINI_API_KEY = False\<rparr>
        (fixed_backend (Returned (Some (ascii ''hello'')))) Map.empty 0 1 (ascii ''Gemini'') (ascii ''hi''))
      = [Send (10060 # ascii '' Gemini is not available (API key missing).'')]"
proof -
  have valid: "lower (ascii ''Gemini'') = ascii ''gemini''"
    by (simp add: lower_def ascii_def is_upper_def)
  have reg: "lower (ascii ''Gemini'') = ascii ''chatgpt'' \<and> \<not> openai_client \<lparr>openai_client = True, GEMINI_API_KEY = False\<rparr>
       \<or> lower (ascii ''Gemini'') = ascii ''gemini'' \<and> \<not> GEMINI_API_KEY \<lparr>openai_client = True, GEMINI_API_KEY = False\<rparr>"
    by (simp add: valid)
  have adm: "\<not> fst (check_spam 1 Map.empty 0 AI_TIME_WINDOW AI_MESSAGE_LIMIT)"
    by (simp add: check_spam_def lookup_times_def AI_MESSAGE_LIMIT_def)
  have "fst (ai_command \<lparr>openai_client = True, GEMINI_API_KEY = False\<rparr>
        (fixed_backend (Returned (Some (ascii ''hello'')))) Map.empty 0 1 (ascii ''Gemini'') (ascii ''hi''))
      = [Send ([10060, 32] @ ascii ''Gemini'' @ ascii '' is not available (API key missing).'')]"
    using C6_backend_unavailable [OF reg adm] valid names_differ by simp
  then show ?thesis
    using valid adm by (simp add: ascii_def)
qed

section \<open>Claims about the ingress gate\<close>

text \<open>
  Claim C9. A message of a human author that the flood limiter rejects gets the warning
  reply, to be deleted after 5 seconds, and nothing else: the logs channel is not looked
  up, nothing is sent to it, and the message is not passed on to command processing. This
  holds whether the reply succeeds or fails.
\<close>

theorem C9_rejected_message_halts:
  assumes "\<not> author_bot m"
    and "fst (check_spam (author_id m) d now SPAM_TIME_WINDOW SPAM_MESSAGE_LIMIT)"
  shows "fst (on_message p d now m) = [Reply slow_down_msg 5]
       \<and> \<not> list_ex is_audit (fst (on_message p d now m))
       \<and> ProcessCommands \<notin> set (fst (on_message p d now m))"
  using assms by (simp add: on_message_def split_def)

text \<open>
  A run of C9: the author has sent five messages in the last five seconds; the sixth is
  answered with the warning only.
\<close>

theorem C9_rejected_message_halts_witness:
  "\<not> author_bot \<lparr>author_bot = False, author_id = 7, author_display_name = ascii ''ann'',
        author_str = ascii ''ann#1'', content = ascii ''/ai chatgpt hi'', channel_name = ascii ''general'',
        guild = Some (ascii ''home''), attachments = []\<rparr>
   \<and> fst (check_spam 7 (Map.empty(7 \<mapsto> [0, 1, 2, 3, 4])) 5 SPAM_TIME_WINDOW SPAM_MESSAGE_LIMIT)
   \<and> fst (on_message \<lparr>reply_outcome = Sent, log_channel = True, log_send_outcome = Sent\<rparr>
        (Map.empty(7 \<mapsto> [0, 1, 2, 3, 4])) 5
        \<lparr>author_bot = False, author_id = 7, author_display_name = ascii ''ann'',
          author_str = ascii ''ann#1'', content = ascii ''/ai chatgpt hi'', channel_name = ascii ''general'',
          guild = Some (ascii ''home''), attachments = []\<rparr>)
      = [Reply slow_down_msg 5]"
proof -
  have spam: "fst (check_spam 7 (Map.empty(7 \<mapsto> [0, 1, 2, 3, 4])) 5 SPAM_TIME_WINDOW SPAM_MESSAGE_LIMIT)"
    by (simp add: check_spam_def lookup_times_def SPAM_TIME_WINDOW_def SPAM_MESSAGE_LIMIT_def)
  from C9_rejected_message_halts [of "\<lparr>author_bot = False, author_id = 7, author_display_name = ascii ''ann'',
        author_str = ascii ''ann#1'', content = ascii ''/ai chatgpt hi'', channel_name = ascii ''general'',
        guild = Some (ascii ''home''), attachments = []\<rparr>" "Map.empty(7 \<mapsto> [0, 1, 2, 3, 4])" 5
        "\<lparr>reply_outcome = Sent, log_channel = True, log_send_outcome = Sent\<rparr>"] spam
  show ?thesis by simp
qed

text \<open>
  Claim C10. A message written by a bot account is dropped at once: no action is taken,
  so there is no reply, no log entry and no command processing, and the dictionary of the
  flood limiter is returned as it was, whatever it holds for the author.
\<close>

theorem C10_bot_message_ignored:
  assumes "author_bot m"
  shows "on_message p d now m = ([], d, Returns)"
  using assms by (simp add: on_message_def)

text \<open>A run of C10: a bot whose id has a full window is ignored all the same.\<close>

theorem C10_bot_message_ignored_witness:
  "author_bot \<lparr>author_bot = True, author_id = 7, author_display_name = ascii ''bot'',
        author_str = ascii ''bot#1'', content = ascii ''/ai chatgpt hi'', channel_name = ascii ''general'',
        guild = Some (ascii ''home''), attachments = []\<rparr>
   \<and> on_message \<lparr>reply_outcome = Sent, log_channel = True, log_send_outcome = Sent\<rparr>
        (Map.empty(7 \<mapsto> [0, 1, 2, 3, 4])) 5
        \<lparr>author_bot = True, author_id = 7, author_display_name = ascii ''bot'',
          author_str = ascii ''bot#1'', content = ascii ''/ai chatgpt hi'', channel_name = ascii ''general'',
          guild = Some (ascii ''home''), attachments = []\<rparr>
      = ([], Map.empty(7 \<mapsto> [0, 1, 2, 3, 4]), Returns)"
  using C10_bot_message_ignored [of "\<lparr>author_bot = True, author_id = 7, author_display_name = ascii ''bot'',
        author_str = ascii ''bot#1'', content = ascii ''/ai chatgpt hi'', channel_name = ascii ''general'',
        guild = Some (ascii ''home''), attachments = []\<rparr>"
      "\<lparr>reply_outcome = Sent, log_channel = True, log_send_outcome = Sent\<rparr>"
      "Map.empty(7 \<mapsto> [0, 1, 2, 3, 4])" 5]
  by simp

end
